theory Spec2Isabelle
  imports Main "HOL-Library.Sublist"
begin

section \<open>md-inject: marker-based injection of text into a document\<close>

text \<open>
  Go strings are byte sequences, modelled as \<open>string\<close> (a list of 8-bit characters);
  Go's \<open>int\<close> positions are modelled as \<open>int\<close> (a position never exceeds the length of
  a string held in memory, so 64-bit wrap-around does not occur).
\<close>

subsection \<open>Errors\<close>

text \<open>
  \<open>Errorf msg\<close> is the error value built by \<open>fmt.Errorf\<close> (or returned by the runtime
  library) with message \<open>msg\<close>; \<open>Panic\<close> is the run-time panic of a slice expression
  whose bounds are out of range.
\<close>

datatype error = Errorf string | Panic

abbreviation NL :: string where
  "NL \<equiv> [CHR 0x0A]"

subsection \<open>Library functions used by the program\<close>

text \<open>
  \<open>strings.Index(s, substr)\<close>: the index of the first instance of \<open>substr\<close> in \<open>s\<close>,
  or \<open>-1\<close> if \<open>substr\<close> is not present in \<open>s\<close>.
\<close>

fun Index :: "string \<Rightarrow> string \<Rightarrow> int" where
  "Index [] substr = (if substr = [] then 0 else - 1)"
| "Index (c # s) substr =
     (if prefix substr (c # s) then 0
      else (let r = Index s substr in if r < 0 then - 1 else r + 1))"

text \<open>The slice expressions \<open>s[:hi]\<close> and \<open>s[lo:]\<close>; out-of-range bounds panic.\<close>

definition slice_to :: "string \<Rightarrow> int \<Rightarrow> error + string" where
  "slice_to s hi = (if 0 \<le> hi \<and> hi \<le> int (length s) then Inr (take (nat hi) s) else Inl Panic)"

definition slice_from :: "string \<Rightarrow> int \<Rightarrow> error + string" where
  "slice_from s lo = (if 0 \<le> lo \<and> lo \<le> int (length s) then Inr (drop (nat lo) s) else Inl Panic)"

subsection \<open>The injector\<close>

definition injectContent :: "string \<Rightarrow> string \<Rightarrow> string \<Rightarrow> string \<Rightarrow> error + string" where
  "injectContent original addition startTag endTag =
     (let startTagPos = Index original startTag;
          endTagPos = Index original endTag
      in if startTagPos < 0 \<and> endTagPos < 0 then
           Inr (original @ NL @ startTag @ NL @ addition @ NL @ endTag @ NL)
         else if startTagPos < 0 then
           Inl (Errorf (''missing start tag '' @ startTag @ '' while end tag is present''))
         else if endTagPos < 0 then
           Inl (Errorf (''missing end tag '' @ endTag @ '' while start tag is present''))
         else if startTagPos > startTagPos then
           Inl (Errorf ''end tag is before the start tag'')
         else
           (case slice_to original (startTagPos + int (length startTag)) of
              Inl e \<Rightarrow> Inl e
            | Inr head \<Rightarrow>
                (case slice_from original endTagPos of
                   Inl e \<Rightarrow> Inl e
                 | Inr tail \<Rightarrow> Inr (head @ NL @ addition @ NL @ tail))))"

subsection \<open>The template engine\<close>

text \<open>
  \<open>text/template\<close> is Go's standard library, not code of this program. Its lexer
  splits the template source at the left delimiter \<open>{{\<close>: a source in which the
  delimiter does not occur is lexed as one text item (none when the source is empty),
  which parses to one text node, and executing a text node writes its text. How a source
  that contains the delimiter is parsed (\<open>parseActions\<close>), and how an action is
  evaluated on the data (\<open>evalAction\<close>), are parameters of the model.
\<close>

datatype 'a node = TextNode string | ActionNode 'a

definition leftDelim :: string where
  "leftDelim = ''{{''"

definition Parse :: "(string \<Rightarrow> error + 'a node list) \<Rightarrow> string \<Rightarrow> error + 'a node list" where
  "Parse parseActions text =
     (if Index text leftDelim < 0 then Inr (if text = [] then [] else [TextNode text])
      else parseActions text)"

fun Execute :: "('a \<Rightarrow> (string \<times> string) list \<Rightarrow> error + string) \<Rightarrow> 'a node list
    \<Rightarrow> (string \<times> string) list \<Rightarrow> error + string" where
  "Execute evalAction [] data = Inr []"
| "Execute evalAction (TextNode t # ns) data =
     (case Execute evalAction ns data of Inl err \<Rightarrow> Inl err | Inr out \<Rightarrow> Inr (t @ out))"
| "Execute evalAction (ActionNode a # ns) data =
     (case evalAction a data of
        Inl err \<Rightarrow> Inl err
      | Inr v \<Rightarrow>
          (case Execute evalAction ns data of Inl err \<Rightarrow> Inl err | Inr out \<Rightarrow> Inr (v @ out)))"

definition defaultOutputTemplate :: string where
  "defaultOutputTemplate = ''{ .stdin }''"

definition defaultTagID :: string where
  "defaultTagID = ''default''"

text \<open>\<open>fmt.Sprintf(tagStartFormat, id)\<close> and \<open>fmt.Sprintf(tagEndFormat, id)\<close>.\<close>

definition tagStartFormat :: "string \<Rightarrow> string" where
  "tagStartFormat ident = ''<!-- START md-inject:'' @ ident @ '' -->''"

definition tagEndFormat :: "string \<Rightarrow> string" where
  "tagEndFormat ident = ''<!-- END md-inject:'' @ ident @ '' -->''"

definition applyTemplate :: "(string \<Rightarrow> error + 'a node list)
    \<Rightarrow> ('a \<Rightarrow> (string \<times> string) list \<Rightarrow> error + string) \<Rightarrow> string \<Rightarrow> string \<Rightarrow> error + string" where
  "applyTemplate parseActions evalAction tmpl content =
     (case Parse parseActions tmpl of
        Inl err \<Rightarrow> Inl err
      | Inr t \<Rightarrow>
          (case Execute evalAction t [(''stdin'', content)] of
             Inl err \<Rightarrow> Inl err
           | Inr output \<Rightarrow> Inr output))"

subsection \<open>The run: configuration, environment and \<open>main\<close>\<close>

record config =
  ID :: string
  failOnDiff :: bool
  printOnly :: bool
  template :: string
  filename :: string

text \<open>
  The environment of a run: what reading standard input returns, what reading each file
  returns, whether the operating system refuses to write a file (a refused write leaves
  the file as it was), and the text written so far to standard output and standard error.
\<close>

record world =
  stdin :: "error + string"
  files :: "string \<Rightarrow> error + string"
  write_refused :: "string \<Rightarrow> error option"
  stdout :: string
  stderr :: string

text \<open>How the process ends: \<open>os.Exit\<close> with a status (falling off \<open>main\<close> is status 0),
  or a crash by a run-time panic.\<close>

datatype outcome = Exit nat | Crashed

text \<open>\<open>fmt.Errorf(what + "%w", err)\<close>: the message of \<open>err\<close> behind the text \<open>what\<close>.\<close>

fun wrap :: "string \<Rightarrow> error \<Rightarrow> error" where
  "wrap what (Errorf msg) = Errorf (what @ msg)"
| "wrap what Panic = Panic"

definition readStdin :: "world \<Rightarrow> error + string" where
  "readStdin w = (case stdin w of Inl err \<Rightarrow> Inl (wrap ''reading stdin: '' err) | Inr input \<Rightarrow> Inr input)"

definition fileContent :: "world \<Rightarrow> string \<Rightarrow> error + string" where
  "fileContent w name = (case files w name of Inl err \<Rightarrow> Inl err | Inr b \<Rightarrow> Inr b)"

definition WriteFile :: "world \<Rightarrow> string \<Rightarrow> string \<Rightarrow> error option \<times> world" where
  "WriteFile w name data =
     (case write_refused w name of
        Some err \<Rightarrow> (Some err, w)
      | None \<Rightarrow> (None, w\<lparr>files := (files w)(name := Inr data)\<rparr>))"

text \<open>The pattern \<open>fmt.Fprintf(os.Stderr, what + "%v\n", err); os.Exit(1)\<close>.\<close>

fun fatal :: "string \<Rightarrow> error \<Rightarrow> world \<Rightarrow> outcome \<times> world" where
  "fatal what (Errorf msg) w = (Exit 1, w\<lparr>stderr := stderr w @ what @ msg @ NL\<rparr>)"
| "fatal what Panic w = (Crashed, w)"

text \<open>
  \<open>main\<close>, after \<open>parseArgs\<close> has produced the configuration (flag parsing is the
  \<open>flag\<close> library's work and is not modelled).
\<close>

definition main :: "(string \<Rightarrow> error + 'a node list)
    \<Rightarrow> ('a \<Rightarrow> (string \<times> string) list \<Rightarrow> error + string) \<Rightarrow> config \<Rightarrow> world \<Rightarrow> outcome \<times> world" where
  "main parseActions evalAction cfg w =
     (case readStdin w of
        Inl err \<Rightarrow> fatal ''Error reading stdin: '' err w
      | Inr contentToInject \<Rightarrow>
     (case fileContent w (filename cfg) of
        Inl err \<Rightarrow> fatal ''Error reading file: '' err w
      | Inr oldContent \<Rightarrow>
     (case applyTemplate parseActions evalAction (template cfg) contentToInject of
        Inl err \<Rightarrow> fatal ''Error applying template: '' err w
      | Inr contentToInject \<Rightarrow>
     (let startTag = tagStartFormat (ID cfg);
          endTag = tagEndFormat (ID cfg)
      in case injectContent oldContent contentToInject startTag endTag of
        Inl err \<Rightarrow> fatal ''Error: '' err w
      | Inr updatedContent \<Rightarrow>
          if oldContent = updatedContent then
            (Exit 0, w\<lparr>stdout := stdout w @ ''No content change needed for '' @ filename cfg
                                  @ '', nothing to do!'' @ NL\<rparr>)
          else if failOnDiff cfg then
            (Exit 2, w\<lparr>stderr := stderr w @ filename cfg
                                  @ '' would be changed. The file is out of date.'' @ NL\<rparr>)
          else if printOnly cfg then
            (Exit 0, w\<lparr>stdout := stdout w @ updatedContent\<rparr>)
          else
            (case WriteFile w (filename cfg) updatedContent of
               (Some err, w') \<Rightarrow>
                 (case err of
                    Errorf msg \<Rightarrow>
                      (Exit 1, w'\<lparr>stderr := stderr w' @ ''Error writing to file '' @ filename cfg
                                            @ '': '' @ msg @ NL\<rparr>)
                  | Panic \<Rightarrow> (Crashed, w'))
             | (None, w') \<Rightarrow>
                 (Exit 0, w'\<lparr>stdout := stdout w' @ filename cfg @ '' successfully updated!'' @ NL\<rparr>))))))"

section \<open>Properties of the string search\<close>

lemma Index_ge: "- 1 \<le> Index s sub"
  by (induction s) (auto simp: Let_def)

lemma Index_found: "0 \<le> Index s sub \<Longrightarrow> prefix sub (drop (nat (Index s sub)) s)"
proof (induction s)
  case Nil
  then show ?case by (simp split: if_splits)
next
  case (Cons c s)
  show ?case
  proof (cases "prefix sub (c # s)")
    case True
    then show ?thesis by simp
  next
    case False
    with Cons.prems have r: "0 \<le> Index s sub"
      by (simp add: Let_def split: if_splits)
    with False have "Index (c # s) sub = Index s sub + 1"
      by (simp add: Let_def)
    moreover have "nat (Index s sub + 1) = Suc (nat (Index s sub))"
      using r by simp
    ultimately show ?thesis using Cons.IH [OF r] by simp
  qed
qed

lemma Index_first: "0 \<le> Index s sub \<Longrightarrow> k < nat (Index s sub) \<Longrightarrow> \<not> prefix sub (drop k s)"
proof (induction s arbitrary: k)
  case Nil
  then show ?case by (simp split: if_splits)
next
  case (Cons c s)
  show ?case
  proof (cases "prefix sub (c # s)")
    case True
    with Cons.prems show ?thesis by simp
  next
    case False
    with Cons.prems have r: "0 \<le> Index s sub"
      by (simp add: Let_def split: if_splits)
    with False have eq: "Index (c # s) sub = Index s sub + 1"
      by (simp add: Let_def)
    show ?thesis
    proof (cases k)
      case 0
      with False show ?thesis by simp
    next
      case (Suc k')
      with Cons.prems eq r have "k' < nat (Index s sub)" by simp
      from Cons.IH [OF r this] Suc show ?thesis by simp
    qed
  qed
qed

lemma Index_absent: "Index s sub < 0 \<Longrightarrow> \<not> prefix sub (drop k s)"
proof (induction s arbitrary: k)
  case Nil
  then show ?case by (simp split: if_splits)
next
  case (Cons c s)
  then have np: "\<not> prefix sub (c # s)" and r: "Index s sub < 0"
    by (auto simp: Let_def split: if_splits)
  show ?case
  proof (cases k)
    case 0
    with np show ?thesis by simp
  next
    case (Suc k')
    with Cons.IH [OF r] show ?thesis by simp
  qed
qed

lemma sublist_iff_prefix_drop: "sublist sub s \<longleftrightarrow> (\<exists>k. prefix sub (drop k s))"
proof
  assume "sublist sub s"
  then obtain ps ss where "s = ps @ sub @ ss" by (auto simp: sublist_def)
  then have "prefix sub (drop (length ps) s)" by simp
  then show "\<exists>k. prefix sub (drop k s)" ..
next
  assume "\<exists>k. prefix sub (drop k s)"
  then obtain k zs where "drop k s = sub @ zs" by (auto simp: prefix_def)
  then have "s = take k s @ sub @ zs" by (metis append_take_drop_id)
  then show "sublist sub s" by (auto simp: sublist_def)
qed

lemma Index_neg_iff: "Index s sub < 0 \<longleftrightarrow> \<not> sublist sub s"
proof
  assume "Index s sub < 0"
  then show "\<not> sublist sub s"
    by (auto simp: sublist_iff_prefix_drop dest: Index_absent)
next
  assume ns: "\<not> sublist sub s"
  show "Index s sub < 0"
  proof (rule ccontr)
    assume "\<not> Index s sub < 0"
    then have "0 \<le> Index s sub" by simp
    from Index_found [OF this] ns show False
      by (auto simp: sublist_iff_prefix_drop)
  qed
qed

lemma Index_bound: "0 \<le> Index s sub \<Longrightarrow> Index s sub + int (length sub) \<le> int (length s)"
proof (induction s)
  case Nil
  then show ?case by (simp split: if_splits)
next
  case (Cons c s)
  show ?case
  proof (cases "prefix sub (c # s)")
    case True
    then have "length sub \<le> length (c # s)" by (rule prefix_length_le)
    with True show ?thesis by simp
  next
    case False
    with Cons.prems have r: "0 \<le> Index s sub"
      by (simp add: Let_def split: if_splits)
    with False Cons.IH [OF r] show ?thesis by (simp add: Let_def)
  qed
qed

lemma Index_eqI:
  assumes "prefix sub (drop k s)" and "k \<le> length s"
    and "\<And>k'. k' < k \<Longrightarrow> \<not> prefix sub (drop k' s)"
  shows "Index s sub = int k"
proof -
  have nn: "0 \<le> Index s sub"
    using assms(1) Index_absent [of s sub k] by (metis not_less)
  have "\<not> k < nat (Index s sub)"
    using Index_first [OF nn] assms(1) by blast
  moreover have "\<not> nat (Index s sub) < k"
    using assms(3) Index_found [OF nn] by blast
  ultimately show ?thesis using nn by simp
qed


lemma Index_nonneg_iff: "0 \<le> Index s sub \<longleftrightarrow> sublist sub s"
  using Index_neg_iff [of s sub] by auto

section \<open>The injector: append mode, replace mode and the error cases\<close>

lemma injectContent_both_found:
  assumes s: "0 \<le> Index original startTag" and e: "0 \<le> Index original endTag"
  shows "injectContent original addition startTag endTag =
           Inr (take (nat (Index original startTag) + length startTag) original
                @ NL @ addition @ NL @ drop (nat (Index original endTag)) original)"
proof -
  have b1: "Index original startTag + int (length startTag) \<le> int (length original)"
    using s by (rule Index_bound)
  have b2: "Index original endTag \<le> int (length original)"
    using Index_bound [OF e] by simp
  have n: "nat (Index original startTag + int (length startTag))
             = nat (Index original startTag) + length startTag"
    using s by (simp add: nat_add_distrib)
  show ?thesis
    using s e b1 b2 n by (simp add: injectContent_def slice_to_def slice_from_def Let_def)
qed

text \<open>
  C4. When neither the start tag nor the end tag occurs in the original document, the
  injection succeeds in append mode: the result is the original, a newline, the start
  tag, a newline, the addition, a newline, the end tag and a final newline.
\<close>

theorem injectContent_append:
  assumes "\<not> sublist startTag original" and "\<not> sublist endTag original"
  shows "injectContent original addition startTag endTag =
           Inr (original @ NL @ startTag @ NL @ addition @ NL @ endTag @ NL)"
  using assms by (simp add: injectContent_def Let_def Index_neg_iff)

theorem injectContent_append_witness:
  "\<not> sublist ''<!-- START md-inject:x -->'' (''A'' @ NL)
   \<and> \<not> sublist ''<!-- END md-inject:x -->'' (''A'' @ NL)
   \<and> injectContent (''A'' @ NL) ''new'' ''<!-- START md-inject:x -->'' ''<!-- END md-inject:x -->''
       = Inr (''A'' @ NL @ NL @ ''<!-- START md-inject:x -->'' @ NL @ ''new'' @ NL
              @ ''<!-- END md-inject:x -->'' @ NL)"
proof -
  have s: "\<not> sublist ''<!-- START md-inject:x -->'' (''A'' @ NL)"
    by (simp add: Index_neg_iff [symmetric])
  have e: "\<not> sublist ''<!-- END md-inject:x -->'' (''A'' @ NL)"
    by (simp add: Index_neg_iff [symmetric])
  show ?thesis
    using s e injectContent_append [OF s e, of "''new''"] by simp
qed

text \<open>
  C7. When exactly one of the two tags occurs in the original document, the injection
  fails with an error whose message names the missing tag: the expected end tag when
  only the start tag is present, the expected start tag when only the end tag is
  present. No document is returned.
\<close>

theorem injectContent_one_tag_missing:
  "(sublist startTag original \<and> \<not> sublist endTag original \<longrightarrow>
      injectContent original addition startTag endTag
        = Inl (Errorf (''missing end tag '' @ endTag @ '' while start tag is present'')))
   \<and> (\<not> sublist startTag original \<and> sublist endTag original \<longrightarrow>
      injectContent original addition startTag endTag
        = Inl (Errorf (''missing start tag '' @ startTag @ '' while end tag is present'')))"
  by (auto simp: injectContent_def Let_def Index_neg_iff Index_nonneg_iff [symmetric])

theorem injectContent_one_tag_missing_witness:
  "(sublist ''<S>'' ''a<S>b'' \<and> \<not> sublist ''<E>'' ''a<S>b''
      \<and> injectContent ''a<S>b'' ''new'' ''<S>'' ''<E>''
          = Inl (Errorf ''missing end tag <E> while start tag is present''))
   \<and> (\<not> sublist ''<S>'' ''a<E>b'' \<and> sublist ''<E>'' ''a<E>b''
      \<and> injectContent ''a<E>b'' ''new'' ''<S>'' ''<E>''
          = Inl (Errorf ''missing start tag <S> while end tag is present''))"
proof -
  have a: "sublist ''<S>'' ''a<S>b'' \<and> \<not> sublist ''<E>'' ''a<S>b''"
    by (simp add: Index_nonneg_iff [symmetric] Index_neg_iff [symmetric])
  have b: "\<not> sublist ''<S>'' ''a<E>b'' \<and> sublist ''<E>'' ''a<E>b''"
    by (simp add: Index_nonneg_iff [symmetric] Index_neg_iff [symmetric])
  show ?thesis
    using a b
      injectContent_one_tag_missing [of "''<S>''" "''a<S>b''" "''<E>''" "''new''"]
      injectContent_one_tag_missing [of "''<S>''" "''a<E>b''" "''<E>''" "''new''"]
    by simp
qed

text \<open>
  C9. The tag-order error branch is unreachable. Whenever both tags occur in the
  original document, also when the first end tag precedes the first start tag, the
  injection returns a document (the text through the first start tag, a newline, the
  addition, a newline, the text from the first end tag on) and does not return the
  error "end tag is before the start tag": the guard compares the start position with
  itself.
\<close>

theorem tag_order_branch_unreachable:
  assumes "sublist startTag original" and "sublist endTag original"
  shows "injectContent original addition startTag endTag =
           Inr (take (nat (Index original startTag) + length startTag) original
                @ NL @ addition @ NL @ drop (nat (Index original endTag)) original)
         \<and> injectContent original addition startTag endTag
             \<noteq> Inl (Errorf ''end tag is before the start tag'')"
  using assms injectContent_both_found [of original startTag endTag addition]
  by (simp add: Index_nonneg_iff)

theorem tag_order_branch_unreachable_witness:
  "sublist ''<S>'' ''x<E>y<S>z'' \<and> sublist ''<E>'' ''x<E>y<S>z''
   \<and> Index ''x<E>y<S>z'' ''<E>'' < Index ''x<E>y<S>z'' ''<S>''
   \<and> injectContent ''x<E>y<S>z'' ''new'' ''<S>'' ''<E>''
       = Inr (''x<E>y<S>'' @ NL @ ''new'' @ NL @ ''<E>y<S>z'')
   \<and> injectContent ''x<E>y<S>z'' ''new'' ''<S>'' ''<E>''
       \<noteq> Inl (Errorf ''end tag is before the start tag'')"
proof -
  have s: "sublist ''<S>'' ''x<E>y<S>z''"
    by (simp add: Index_nonneg_iff [symmetric])
  have e: "sublist ''<E>'' ''x<E>y<S>z''"
    by (simp add: Index_nonneg_iff [symmetric])
  show ?thesis
    using s e tag_order_branch_unreachable [OF s e, of "''new''"] by simp
qed

text \<open>
  C1. The specification asks for a tag-order error when the first end tag precedes the
  first start tag. The program, run on the document \<open>x<E>y<S>z\<close> with tags \<open><S>\<close> and
  \<open><E>\<close>, finds the end tag at position 1 and the start tag at position 5 and returns
  a document instead of the error.
\<close>

theorem injectContent_inverted_tags_accepted:
  "Index ''x<E>y<S>z'' ''<E>'' = 1 \<and> Index ''x<E>y<S>z'' ''<S>'' = 5
   \<and> injectContent ''x<E>y<S>z'' ''new'' ''<S>'' ''<E>''
       = Inr (''x<E>y<S>'' @ NL @ ''new'' @ NL @ ''<E>y<S>z'')"
  by (simp add: injectContent_def slice_to_def slice_from_def)

text \<open>
  C3 as stated (the end tag follows the addition with no newline in between) fails on
  the specification's own scenario: the program puts a newline after the addition.
\<close>

theorem injectContent_replace_counterexample:
  "Index (''A'' @ NL @ ''<!-- START md-inject:default -->'' @ NL @ ''old'' @ NL
            @ ''<!-- END md-inject:default -->'' @ NL @ ''B'' @ NL)
         ''<!-- START md-inject:default -->'' = 2
   \<and> Index (''A'' @ NL @ ''<!-- START md-inject:default -->'' @ NL @ ''old'' @ NL
            @ ''<!-- END md-inject:default -->'' @ NL @ ''B'' @ NL)
         ''<!-- END md-inject:default -->'' = 39
   \<and> injectContent
        (''A'' @ NL @ ''<!-- START md-inject:default -->'' @ NL @ ''old'' @ NL
           @ ''<!-- END md-inject:default -->'' @ NL @ ''B'' @ NL)
        ''new'' ''<!-- START md-inject:default -->'' ''<!-- END md-inject:default -->''
       \<noteq> Inr (''A'' @ NL @ ''<!-- START md-inject:default -->'' @ NL @ ''new''
                @ ''<!-- END md-inject:default -->'' @ NL @ ''B'' @ NL)
   \<and> injectContent
        (''A'' @ NL @ ''<!-- START md-inject:default -->'' @ NL @ ''old'' @ NL
           @ ''<!-- END md-inject:default -->'' @ NL @ ''B'' @ NL)
        ''new'' ''<!-- START md-inject:default -->'' ''<!-- END md-inject:default -->''
       = Inr (''A'' @ NL @ ''<!-- START md-inject:default -->'' @ NL @ ''new'' @ NL
                @ ''<!-- END md-inject:default -->'' @ NL @ ''B'' @ NL)"
  by code_simp

text \<open>
  C3, amended. When the first start tag is at position \<open>i\<close> and the first end tag at
  position \<open>j > i\<close>, the result is the original text up to and including the start
  tag, a newline, the addition, a newline, and the original text from the end tag on.
\<close>

theorem injectContent_replace:
  assumes "Index original startTag = int i" and "Index original endTag = int j" and "i < j"
  shows "injectContent original addition startTag endTag =
           Inr (take (i + length startTag) original @ NL @ addition @ NL @ drop j original)"
  using assms injectContent_both_found [of original startTag endTag addition] by simp

theorem injectContent_replace_witness:
  "Index ''A<S>old<E>B'' ''<S>'' = int 1 \<and> Index ''A<S>old<E>B'' ''<E>'' = int 7
   \<and> (1::nat) < 7
   \<and> injectContent ''A<S>old<E>B'' ''new'' ''<S>'' ''<E>''
       = Inr (''A<S>'' @ NL @ ''new'' @ NL @ ''<E>B'')"
proof -
  have s: "Index ''A<S>old<E>B'' ''<S>'' = int 1" by simp
  have e: "Index ''A<S>old<E>B'' ''<E>'' = int 7" by simp
  have l: "(1::nat) < 7" by simp
  show ?thesis
    using s e l injectContent_replace [OF s e l, of "''new''"] by simp
qed

text \<open>
  C10. The injector never inspects the addition. For fixed original and tags, either
  every addition yields the same error, or there are a prefix and a suffix such that
  every addition yields prefix, addition, suffix; the addition is inserted verbatim.
\<close>

theorem injectContent_addition_uninspected:
  "(\<exists>e. \<forall>addition. injectContent original addition startTag endTag = Inl e)
   \<or> (\<exists>pre suf. \<forall>addition.
         injectContent original addition startTag endTag = Inr (pre @ addition @ suf))"
proof -
  consider
    (absent) "Index original startTag < 0" and "Index original endTag < 0"
  | (no_start) "Index original startTag < 0" and "0 \<le> Index original endTag"
  | (no_end) "0 \<le> Index original startTag" and "Index original endTag < 0"
  | (found) "0 \<le> Index original startTag" and "0 \<le> Index original endTag"
    by linarith
  then show ?thesis
  proof cases
    case absent
    then have "\<forall>addition. injectContent original addition startTag endTag =
        Inr ((original @ NL @ startTag @ NL) @ addition @ (NL @ endTag @ NL))"
      by (simp add: injectContent_def Let_def)
    then show ?thesis by blast
  next
    case no_start
    then have "\<forall>addition. injectContent original addition startTag endTag =
        Inl (Errorf (''missing start tag '' @ startTag @ '' while end tag is present''))"
      by (simp add: injectContent_def Let_def)
    then show ?thesis by blast
  next
    case no_end
    then have "\<forall>addition. injectContent original addition startTag endTag =
        Inl (Errorf (''missing end tag '' @ endTag @ '' while start tag is present''))"
      by (simp add: injectContent_def Let_def)
    then show ?thesis by blast
  next
    case found
    then have "\<forall>addition. injectContent original addition startTag endTag =
        Inr ((take (nat (Index original startTag) + length startTag) original @ NL)
             @ addition @ (NL @ drop (nat (Index original endTag)) original))"
      by (simp add: injectContent_both_found)
    then show ?thesis by blast
  qed
qed

section \<open>The template engine and the run\<close>

lemma Index_leftDelim_default: "Index defaultOutputTemplate leftDelim < 0"
  by (simp add: defaultOutputTemplate_def leftDelim_def)

text \<open>
  C2. The specification asks the default template to return the content unchanged. The
  program's default template is \<open>{ .stdin }\<close>, with single braces: it holds no action,
  so whatever the content and whatever the engine does with actions, the rendered text
  is the template's own text. For the content \<open>new\<close> the result is not \<open>new\<close>.
\<close>

theorem applyTemplate_default_is_literal:
  "applyTemplate parseActions evalAction defaultOutputTemplate content = Inr ''{ .stdin }''
   \<and> applyTemplate parseActions evalAction defaultOutputTemplate ''new'' \<noteq> Inr ''new''"
proof -
  have "Parse parseActions defaultOutputTemplate = Inr [TextNode ''{ .stdin }'']"
    using Index_leftDelim_default by (simp add: Parse_def defaultOutputTemplate_def)
  then have "applyTemplate parseActions evalAction defaultOutputTemplate c = Inr ''{ .stdin }''" for c
    by (simp add: applyTemplate_def)
  then show ?thesis by simp
qed

text \<open>
  C8. In a run that gets as far as computing the updated content: if the fail-on-diff
  flag is set and the updated content differs from the file's current content, the
  process exits with status 2 and no file is modified; if the updated content equals the
  current content, the process exits with status 0 and no file is modified, whatever
  the flags (the no-op check comes first).
\<close>

theorem main_fail_on_diff:
  assumes "readStdin w = Inr input"
    and "fileContent w (filename cfg) = Inr oldContent"
    and "applyTemplate parseActions evalAction (template cfg) input = Inr content"
    and "injectContent oldContent content (tagStartFormat (ID cfg)) (tagEndFormat (ID cfg))
           = Inr updatedContent"
  shows "(failOnDiff cfg \<and> updatedContent \<noteq> oldContent \<longrightarrow>
            fst (main parseActions evalAction cfg w) = Exit 2
            \<and> files (snd (main parseActions evalAction cfg w)) = files w)
         \<and> (updatedContent = oldContent \<longrightarrow>
            fst (main parseActions evalAction cfg w) = Exit 0
            \<and> files (snd (main parseActions evalAction cfg w)) = files w)"
  using assms by (auto simp: main_def Let_def)

theorem main_fail_on_diff_witness:
  "fst (main (\<lambda>t. Inl (Errorf ''unsupported'') :: error + unit node list)
             (\<lambda>a d. Inl (Errorf ''unsupported''))
             \<lparr>ID = ''default'', failOnDiff = True, printOnly = False,
               template = ''{ .stdin }'', filename = ''README.md''\<rparr>
             \<lparr>stdin = Inr ''new'', files = (\<lambda>name. Inr []),
               write_refused = (\<lambda>name. None), stdout = [], stderr = []\<rparr>) = Exit 2
   \<and> files (snd (main (\<lambda>t. Inl (Errorf ''unsupported'') :: error + unit node list)
             (\<lambda>a d. Inl (Errorf ''unsupported''))
             \<lparr>ID = ''default'', failOnDiff = True, printOnly = False,
               template = ''{ .stdin }'', filename = ''README.md''\<rparr>
             \<lparr>stdin = Inr ''new'', files = (\<lambda>name. Inr []),
               write_refused = (\<lambda>name. None), stdout = [], stderr = []\<rparr>))
       = (\<lambda>name. Inr [])
   \<and> fst (main (\<lambda>t. Inl (Errorf ''unsupported'') :: error + unit node list)
             (\<lambda>a d. Inl (Errorf ''unsupported''))
             \<lparr>ID = ''default'', failOnDiff = True, printOnly = False,
               template = ''{ .stdin }'', filename = ''README.md''\<rparr>
             \<lparr>stdin = Inr ''new'',
               files = (\<lambda>name. Inr (''<!-- START md-inject:default -->'' @ NL @ ''{ .stdin }'' @ NL
                                      @ ''<!-- END md-inject:default -->'' @ NL)),
               write_refused = (\<lambda>name. None), stdout = [], stderr = []\<rparr>) = Exit 0
   \<and> files (snd (main (\<lambda>t. Inl (Errorf ''unsupported'') :: error + unit node list)
             (\<lambda>a d. Inl (Errorf ''unsupported''))
             \<lparr>ID = ''default'', failOnDiff = True, printOnly = False,
               template = ''{ .stdin }'', filename = ''README.md''\<rparr>
             \<lparr>stdin = Inr ''new'',
               files = (\<lambda>name. Inr (''<!-- START md-inject:default -->'' @ NL @ ''{ .stdin }'' @ NL
                                      @ ''<!-- END md-inject:default -->'' @ NL)),
               write_refused = (\<lambda>name. None), stdout = [], stderr = []\<rparr>))
       = (\<lambda>name. Inr (''<!-- START md-inject:default -->'' @ NL @ ''{ .stdin }'' @ NL
                                      @ ''<!-- END md-inject:default -->'' @ NL))"
proof -
  let ?pa = "\<lambda>t::string. Inl (Errorf ''unsupported'') :: error + unit node list"
  let ?ea = "\<lambda>(a::unit) (d::(string \<times> string) list). Inl (Errorf ''unsupported'') :: error + string"
  let ?cfg = "\<lparr>ID = ''default'', failOnDiff = True, printOnly = False,
                template = ''{ .stdin }'', filename = ''README.md''\<rparr>"
  let ?w = "\<lparr>stdin = Inr ''new'', files = (\<lambda>name. Inr []),
                write_refused = (\<lambda>name. None), stdout = [], stderr = []\<rparr>"
  let ?upd = "NL @ ''<!-- START md-inject:default -->'' @ NL @ ''{ .stdin }'' @ NL
            @ ''<!-- END md-inject:default -->'' @ NL"
  let ?old = "''<!-- START md-inject:default -->'' @ NL @ ''{ .stdin }'' @ NL
                                      @ ''<!-- END md-inject:default -->'' @ NL"
  let ?w' = "\<lparr>stdin = Inr ''new'', files = (\<lambda>name. Inr ?old),
                write_refused = (\<lambda>name. None), stdout = [], stderr = []\<rparr>"
  have h1: "readStdin ?w = Inr ''new''" by (simp add: readStdin_def)
  have h2: "fileContent ?w (filename ?cfg) = Inr []" by (simp add: fileContent_def)
  have h3: "applyTemplate ?pa ?ea (template ?cfg) ''new'' = Inr ''{ .stdin }''"
    by (simp add: applyTemplate_def Parse_def leftDelim_def)
  have h4: "injectContent [] ''{ .stdin }'' (tagStartFormat (ID ?cfg)) (tagEndFormat (ID ?cfg)) = Inr ?upd"
    by (simp add: injectContent_def tagStartFormat_def tagEndFormat_def)
  have k1: "readStdin ?w' = Inr ''new''" by (simp add: readStdin_def)
  have k2: "fileContent ?w' (filename ?cfg) = Inr ?old" by (simp add: fileContent_def)
  have k4: "injectContent ?old ''{ .stdin }'' (tagStartFormat ''default'') (tagEndFormat ''default'') = Inr ?old"
    by code_simp
  then have k4': "injectContent ?old ''{ .stdin }'' (tagStartFormat (ID ?cfg)) (tagEndFormat (ID ?cfg)) = Inr ?old"
    by simp
  show ?thesis
    using main_fail_on_diff [OF h1 h2 h3 h4] main_fail_on_diff [OF k1 k2 h3 k4']
    by simp
qed

section \<open>Occurrences of a tag in the result of an injection\<close>

lemma prefix_sep:
  assumes "c \<notin> set p" and "prefix p (u @ c # v)"
  shows "prefix p u"
proof -
  from assms(2) consider "prefix p u" | us where "p = u @ us" and "prefix us (c # v)"
    by (auto simp: prefix_append)
  then show ?thesis
  proof cases
    case 1
    then show ?thesis .
  next
    case 2
    show ?thesis
    proof (cases us)
      case Nil
      with 2 show ?thesis by simp
    next
      case (Cons d ds)
      with 2 have "d = c" by simp
      with 2 Cons assms(1) show ?thesis by simp
    qed
  qed
qed

lemma prefix_drop_sep:
  assumes "c \<notin> set p" and "prefix p (drop k (u @ c # v))"
  shows "(k \<le> length u \<and> prefix p (drop k u))
         \<or> (length u < k \<and> prefix p (drop (k - Suc (length u)) v))"
proof (cases "k \<le> length u")
  case True
  then have "drop k (u @ c # v) = drop k u @ c # v" by simp
  with assms show ?thesis using True by (auto dest: prefix_sep)
next
  case False
  then have "drop k (u @ c # v) = drop (k - Suc (length u)) v"
    by (simp add: drop_Cons')
  with assms False show ?thesis by simp
qed

lemma prefix_drop_take: "prefix p (drop k (take n s)) \<Longrightarrow> prefix p (drop k s)"
proof -
  assume "prefix p (drop k (take n s))"
  then have "prefix p (take (n - k) (drop k s))" by (simp add: drop_take)
  then show ?thesis using take_is_prefix prefix_order.trans by blast
qed

lemma prefix_drop_appendD:
  assumes "prefix p (drop k (x @ y))" and "k + length p \<le> length x"
  shows "prefix p (drop k x)"
proof -
  from assms(2) have "drop k (x @ y) = drop k x @ y" by simp
  with assms(1) have "prefix p (drop k x @ y)" by simp
  moreover have "length p \<le> length (drop k x)" using assms(2) by simp
  ultimately show ?thesis
    by (auto simp: prefix_append)
qed

lemma prefix_drop_sublist: "prefix p (drop k s) \<Longrightarrow> sublist p s"
  by (auto simp: sublist_iff_prefix_drop)

lemma Index_take_split:
  assumes "0 \<le> Index s p"
  shows "take (nat (Index s p) + length p) s = take (nat (Index s p)) s @ p"
    and "drop (nat (Index s p)) s = p @ drop (nat (Index s p) + length p) s"
proof -
  from Index_found [OF assms] obtain zs where z: "drop (nat (Index s p)) s = p @ zs"
    by (auto simp: prefix_def)
  have "take (nat (Index s p) + length p) s
          = take (nat (Index s p)) s @ take (length p) (drop (nat (Index s p)) s)"
    by (simp add: take_add)
  with z show "take (nat (Index s p) + length p) s = take (nat (Index s p)) s @ p" by simp
  have "drop (nat (Index s p) + length p) s = drop (length p) (drop (nat (Index s p)) s)"
    by (simp add: add.commute)
  with z show "drop (nat (Index s p)) s = p @ drop (nat (Index s p) + length p) s" by simp
qed

text \<open>The first occurrence of a pattern survives any change of the text behind it.\<close>

lemma Index_head_kept:
  assumes "0 \<le> Index s p"
  shows "Index (take (nat (Index s p) + length p) s @ y) p = Index s p"
proof -
  let ?i = "nat (Index s p)"
  let ?x = "take (?i + length p) s"
  have len: "length ?x = ?i + length p"
    using Index_bound [OF assms] assms by simp
  have x: "?x = take ?i s @ p" using assms by (rule Index_take_split)
  have li: "length (take ?i s) = ?i" using len by simp
  have "drop ?i (?x @ y) = p @ y"
    using x li by simp
  then have at: "prefix p (drop ?i (?x @ y))" by simp
  have first: "\<not> prefix p (drop k (?x @ y))" if "k < ?i" for k
  proof
    assume "prefix p (drop k (?x @ y))"
    moreover have "k + length p \<le> length ?x" using that len by simp
    ultimately have "prefix p (drop k ?x)" by (rule prefix_drop_appendD)
    then have "prefix p (drop k s)" by (rule prefix_drop_take)
    with Index_first [OF assms that] show False by simp
  qed
  have "Index (?x @ y) p = int ?i"
    using at _ first
  proof (rule Index_eqI)
    show "?i \<le> length (?x @ y)" using len by simp
  qed
  with assms show ?thesis by simp
qed

lemma injectContent_success_cases:
  assumes "injectContent original addition startTag endTag = Inr r"
  obtains
    (append) "Index original startTag < 0" and "Index original endTag < 0"
      and "r = original @ NL @ startTag @ NL @ addition @ NL @ endTag @ NL"
  | (replace) "0 \<le> Index original startTag" and "0 \<le> Index original endTag"
      and "r = take (nat (Index original startTag) + length startTag) original
                 @ NL @ addition @ NL @ drop (nat (Index original endTag)) original"
proof -
  consider
    (absent) "Index original startTag < 0" and "Index original endTag < 0"
  | (no_start) "Index original startTag < 0" and "0 \<le> Index original endTag"
  | (no_end) "0 \<le> Index original startTag" and "Index original endTag < 0"
  | (found) "0 \<le> Index original startTag" and "0 \<le> Index original endTag"
    by linarith
  then show thesis
  proof cases
    case absent
    with assms have "r = original @ NL @ startTag @ NL @ addition @ NL @ endTag @ NL"
      by (simp add: injectContent_def Let_def)
    with absent show thesis by (rule append)
  next
    case no_start
    with assms show thesis by (simp add: injectContent_def Let_def)
  next
    case no_end
    with assms show thesis by (simp add: injectContent_def Let_def)
  next
    case found
    with assms injectContent_both_found [OF found, of addition]
    have "r = take (nat (Index original startTag) + length startTag) original
                 @ NL @ addition @ NL @ drop (nat (Index original endTag)) original"
      by simp
    with found show thesis by (rule replace)
  qed
qed

text \<open>Replace mode: where the first end tag of the result is.\<close>

lemma Index_end_replace:
  assumes s: "0 \<le> Index original startTag" and e: "0 \<le> Index original endTag"
    and order: "Index original startTag \<le> Index original endTag"
    and nlE: "CHR 0x0A \<notin> set endTag"
    and ES: "\<not> sublist endTag startTag" and EA: "\<not> sublist endTag addition"
  shows "Index (take (nat (Index original startTag) + length startTag) original
                @ NL @ addition @ NL @ drop (nat (Index original endTag)) original) endTag
         = int (nat (Index original startTag) + length startTag + length addition + 2)"
proof -
  let ?i = "nat (Index original startTag)"
  let ?j = "nat (Index original endTag)"
  let ?x = "take (?i + length startTag) original"
  let ?q = "drop ?j original"
  let ?r = "?x @ NL @ addition @ NL @ ?q"
  let ?m = "?i + length startTag + length addition + 2"
  have len: "length ?x = ?i + length startTag"
    using Index_bound [OF s] s by simp
  have x: "?x = take ?i original @ startTag" using s by (rule Index_take_split)
  have li: "length (take ?i original) = ?i" using len by simp
  have "?r = (?x @ NL @ addition @ NL) @ ?q" by simp
  moreover have "length (?x @ NL @ addition @ NL) = ?m" using len by simp
  ultimately have dr: "drop ?m ?r = ?q" by (metis append_eq_conv_conj)
  have at: "prefix endTag (drop ?m ?r)"
    unfolding dr using e by (rule Index_found)
  have first: "\<not> prefix endTag (drop k ?r)" if k: "k < ?m" for k
  proof
    assume "prefix endTag (drop k ?r)"
    then have "prefix endTag (drop k (?x @ CHR 0x0A # (addition @ CHR 0x0A # ?q)))" by simp
    from prefix_drop_sep [OF nlE this]
    consider (head) "k \<le> length ?x" and "prefix endTag (drop k ?x)"
      | (rest) "length ?x < k"
          and "prefix endTag (drop (k - Suc (length ?x)) (addition @ CHR 0x0A # ?q))"
      by blast
    then show False
    proof cases
      case head
      from head(2) have "prefix endTag (drop k original)" by (rule prefix_drop_take)
      with Index_first [OF e, of k] have "\<not> k < ?j" by blast
      with order s have "?i \<le> k" by simp
      then have "drop k ?x = drop (k - ?i) startTag"
        using x li by simp
      with head(2) have "prefix endTag (drop (k - ?i) startTag)" by simp
      then have "sublist endTag startTag" by (rule prefix_drop_sublist)
      with ES show False ..
    next
      case rest
      from prefix_drop_sep [OF nlE rest(2)]
      consider (inside) "prefix endTag (drop (k - Suc (length ?x)) addition)"
        | (beyond) "length addition < k - Suc (length ?x)"
        by blast
      then show False
      proof cases
        case inside
        then have "sublist endTag addition" by (rule prefix_drop_sublist)
        with EA show False ..
      next
        case beyond
        with k len show False by simp
      qed
    qed
  qed
  show ?thesis
    using at _ first
  proof (rule Index_eqI)
    show "?m \<le> length ?r" using len by simp
  qed
qed

lemma idempotent_in_replace_mode:
  assumes s: "0 \<le> Index original startTag" and e: "0 \<le> Index original endTag"
    and order: "Index original startTag \<le> Index original endTag"
    and nlE: "CHR 0x0A \<notin> set endTag"
    and ES: "\<not> sublist endTag startTag" and EA: "\<not> sublist endTag addition"
    and r: "r = take (nat (Index original startTag) + length startTag) original
                 @ NL @ addition @ NL @ drop (nat (Index original endTag)) original"
  shows "injectContent r addition startTag endTag = Inr r"
proof -
  let ?i = "nat (Index original startTag)"
  let ?x = "take (?i + length startTag) original"
  let ?q = "drop (nat (Index original endTag)) original"
  let ?m = "?i + length startTag + length addition + 2"
  have len: "length ?x = ?i + length startTag"
    using Index_bound [OF s] s by simp
  have pos_s: "Index r startTag = Index original startTag"
    unfolding r using s by (rule Index_head_kept)
  have pos_e: "Index r endTag = int ?m"
    unfolding r using assms(1-6) by (rule Index_end_replace)
  have "r = ?x @ (NL @ addition @ NL @ ?q)" using r by simp
  then have tk: "take (?i + length startTag) r = ?x"
    using len by (metis append_eq_conv_conj)
  have "r = (?x @ NL @ addition @ NL) @ ?q" using r by simp
  moreover have "length (?x @ NL @ addition @ NL) = ?m" using len by simp
  ultimately have dr: "drop ?m r = ?q" by (metis append_eq_conv_conj)
  have "injectContent r addition startTag endTag =
          Inr (take (nat (Index r startTag) + length startTag) r
               @ NL @ addition @ NL @ drop (nat (Index r endTag)) r)"
    using s pos_s pos_e by (intro injectContent_both_found) simp_all
  also have "\<dots> = Inr (?x @ NL @ addition @ NL @ ?q)"
    using tk dr by (simp only: pos_s pos_e nat_int)
  finally show ?thesis using r by simp
qed

text \<open>Append mode: where the first start tag and the first end tag of the result are.\<close>

lemma Index_start_append:
  assumes absent: "Index original startTag < 0" and nlS: "CHR 0x0A \<notin> set startTag"
  shows "Index (original @ NL @ startTag @ y) startTag = int (length original + 1)"
proof -
  let ?r = "original @ NL @ startTag @ y"
  have "?r = (original @ NL) @ startTag @ y" by simp
  moreover have "length (original @ NL) = length original + 1" by simp
  ultimately have "drop (length original + 1) ?r = startTag @ y"
    by (metis append_eq_conv_conj)
  then have at: "prefix startTag (drop (length original + 1) ?r)" by simp
  have first: "\<not> prefix startTag (drop k ?r)" if k: "k < length original + 1" for k
  proof
    assume "prefix startTag (drop k ?r)"
    then have "prefix startTag (drop k (original @ CHR 0x0A # (startTag @ y)))" by simp
    from prefix_drop_sep [OF nlS this] k have "prefix startTag (drop k original)" by auto
    with Index_absent [OF absent] show False by blast
  qed
  show ?thesis
    using at _ first
  proof (rule Index_eqI)
    show "length original + 1 \<le> length ?r" by simp
  qed
qed

lemma Index_end_append:
  assumes absent: "Index original endTag < 0" and nlE: "CHR 0x0A \<notin> set endTag"
    and ES: "\<not> sublist endTag startTag" and EA: "\<not> sublist endTag addition"
  shows "Index (original @ NL @ startTag @ NL @ addition @ NL @ endTag @ y) endTag
         = int (length original + length startTag + length addition + 3)"
proof -
  let ?r = "original @ NL @ startTag @ NL @ addition @ NL @ endTag @ y"
  let ?m = "length original + length startTag + length addition + 3"
  have "?r = (original @ NL @ startTag @ NL @ addition @ NL) @ endTag @ y" by simp
  moreover have "length (original @ NL @ startTag @ NL @ addition @ NL) = ?m" by simp
  ultimately have "drop ?m ?r = endTag @ y" by (metis append_eq_conv_conj)
  then have at: "prefix endTag (drop ?m ?r)" by simp
  have first: "\<not> prefix endTag (drop k ?r)" if k: "k < ?m" for k
  proof
    assume "prefix endTag (drop k ?r)"
    then have "prefix endTag (drop k (original @ CHR 0x0A
        # (startTag @ CHR 0x0A # (addition @ CHR 0x0A # (endTag @ y)))))" by simp
    from prefix_drop_sep [OF nlE this]
    consider (old) "prefix endTag (drop k original)"
      | (new) "length original < k"
          and "prefix endTag (drop (k - Suc (length original))
                 (startTag @ CHR 0x0A # (addition @ CHR 0x0A # (endTag @ y))))"
      by blast
    then show False
    proof cases
      case old
      with Index_absent [OF absent] show False by blast
    next
      case new
      from prefix_drop_sep [OF nlE new(2)]
      consider (tag) "prefix endTag (drop (k - Suc (length original)) startTag)"
        | (later) "length startTag < k - Suc (length original)"
            and "prefix endTag (drop (k - Suc (length original) - Suc (length startTag))
                   (addition @ CHR 0x0A # (endTag @ y)))"
        by blast
      then show False
      proof cases
        case tag
        then have "sublist endTag startTag" by (rule prefix_drop_sublist)
        with ES show False ..
      next
        case later
        from prefix_drop_sep [OF nlE later(2)]
        consider (inside) "prefix endTag
              (drop (k - Suc (length original) - Suc (length startTag)) addition)"
          | (beyond) "length addition < k - Suc (length original) - Suc (length startTag)"
          by blast
        then show False
        proof cases
          case inside
          then have "sublist endTag addition" by (rule prefix_drop_sublist)
          with EA show False ..
        next
          case beyond
          with k show False by simp
        qed
      qed
    qed
  qed
  show ?thesis
    using at _ first
  proof (rule Index_eqI)
    show "?m \<le> length ?r" by simp
  qed
qed

lemma idempotent_in_append_mode:
  assumes s: "Index original startTag < 0" and e: "Index original endTag < 0"
    and nlS: "CHR 0x0A \<notin> set startTag" and nlE: "CHR 0x0A \<notin> set endTag"
    and ES: "\<not> sublist endTag startTag" and EA: "\<not> sublist endTag addition"
    and r: "r = original @ NL @ startTag @ NL @ addition @ NL @ endTag @ NL"
  shows "injectContent r addition startTag endTag = Inr r"
proof -
  let ?n = "length original + 1"
  let ?m = "length original + length startTag + length addition + 3"
  have pos_s: "Index r startTag = int ?n"
    unfolding r using s nlS by (rule Index_start_append)
  have pos_e: "Index r endTag = int ?m"
    unfolding r using e nlE ES EA by (rule Index_end_append)
  have "r = (original @ NL @ startTag) @ (NL @ addition @ NL @ endTag @ NL)" using r by simp
  moreover have "length (original @ NL @ startTag) = ?n + length startTag" by simp
  ultimately have tk: "take (?n + length startTag) r = original @ NL @ startTag"
    by (metis append_eq_conv_conj)
  have "r = (original @ NL @ startTag @ NL @ addition @ NL) @ (endTag @ NL)" using r by simp
  moreover have "length (original @ NL @ startTag @ NL @ addition @ NL) = ?m" by simp
  ultimately have dr: "drop ?m r = endTag @ NL" by (metis append_eq_conv_conj)
  have "injectContent r addition startTag endTag =
          Inr (take (nat (Index r startTag) + length startTag) r
               @ NL @ addition @ NL @ drop (nat (Index r endTag)) r)"
    using pos_s pos_e by (intro injectContent_both_found) simp_all
  also have "\<dots> = Inr ((original @ NL @ startTag) @ NL @ addition @ NL @ (endTag @ NL))"
    using tk dr by (simp only: pos_s pos_e nat_int)
  finally show ?thesis using r by simp
qed

text \<open>
  Where the start tag occurs in the result. In replace mode the text between the tags is
  dropped: besides the addition, only the original from its first end tag on can hold
  another occurrence of a start tag without newline.
\<close>

lemma start_once_replace:
  assumes s: "0 \<le> Index original startTag"
    and nlS: "CHR 0x0A \<notin> set startTag" and SA: "\<not> sublist startTag addition"
    and late: "\<not> sublist startTag (drop (nat (Index original endTag)) original)"
    and r: "r = take (nat (Index original startTag) + length startTag) original
                 @ NL @ addition @ NL @ drop (nat (Index original endTag)) original"
  shows "(k \<le> length r \<and> prefix startTag (drop k r)) = (k = nat (Index original startTag))"
proof
  let ?i = "nat (Index original startTag)"
  let ?j = "nat (Index original endTag)"
  let ?x = "take (?i + length startTag) original"
  let ?q = "drop ?j original"
  have len: "length ?x = ?i + length startTag"
    using Index_bound [OF s] s by simp
  have x: "?x = take ?i original @ startTag" using s by (rule Index_take_split)
  have li: "length (take ?i original) = ?i" using len by simp
  {
    assume "k \<le> length r \<and> prefix startTag (drop k r)"
    then have "prefix startTag (drop k (?x @ CHR 0x0A # (addition @ CHR 0x0A # ?q)))"
      using r by simp
    from prefix_drop_sep [OF nlS this]
    consider (head) "k \<le> length ?x" and "prefix startTag (drop k ?x)"
      | (rest) "length ?x < k"
          and "prefix startTag (drop (k - Suc (length ?x)) (addition @ CHR 0x0A # ?q))"
      by blast
    then show "k = ?i"
    proof cases
      case head
      from head(2) have "length startTag \<le> length (drop k ?x)" by (rule prefix_length_le)
      with len head(1) have "k \<le> ?i" by simp
      moreover from head(2) have "prefix startTag (drop k original)" by (rule prefix_drop_take)
      with Index_first [OF s, of k] have "\<not> k < ?i" by blast
      ultimately show ?thesis by simp
    next
      case rest
      from prefix_drop_sep [OF nlS rest(2)]
      consider (inside) "prefix startTag (drop (k - Suc (length ?x)) addition)"
        | (beyond) "prefix startTag (drop (k - Suc (length ?x) - Suc (length addition)) ?q)"
        by blast
      then show ?thesis
      proof cases
        case inside
        then have "sublist startTag addition" by (rule prefix_drop_sublist)
        with SA show ?thesis ..
      next
        case beyond
        then have "sublist startTag ?q" by (rule prefix_drop_sublist)
        with late show ?thesis ..
      qed
    qed
  }
  {
    assume k: "k = ?i"
    have "drop ?i r = startTag @ NL @ addition @ NL @ ?q"
      unfolding r x using li by simp
    moreover have "?i \<le> length r" unfolding r using len by simp
    ultimately show "k \<le> length r \<and> prefix startTag (drop k r)"
      using k by simp
  }
qed

lemma start_once_append:
  assumes absent: "Index original startTag < 0"
    and nlS: "CHR 0x0A \<notin> set startTag" and SA: "\<not> sublist startTag addition"
    and SE: "\<not> sublist startTag endTag"
    and r: "r = original @ NL @ startTag @ NL @ addition @ NL @ endTag @ NL"
  shows "(k \<le> length r \<and> prefix startTag (drop k r)) = (k = length original + 1)"
proof
  have ne: "startTag \<noteq> []" using SA by auto
  {
    assume "k \<le> length r \<and> prefix startTag (drop k r)"
    then have "prefix startTag (drop k (original @ CHR 0x0A
        # (startTag @ CHR 0x0A # (addition @ CHR 0x0A # (endTag @ CHR 0x0A # [])))))"
      using r by simp
    from prefix_drop_sep [OF nlS this]
    consider (old) "prefix startTag (drop k original)"
      | (new) "length original < k"
          and "prefix startTag (drop (k - Suc (length original))
                 (startTag @ CHR 0x0A # (addition @ CHR 0x0A # (endTag @ CHR 0x0A # []))))"
      by blast
    then show "k = length original + 1"
    proof cases
      case old
      with Index_absent [OF absent] show ?thesis by blast
    next
      case new
      from prefix_drop_sep [OF nlS new(2)]
      consider (tag) "prefix startTag (drop (k - Suc (length original)) startTag)"
        | (later) "prefix startTag (drop (k - Suc (length original) - Suc (length startTag))
                   (addition @ CHR 0x0A # (endTag @ CHR 0x0A # [])))"
        by blast
      then show ?thesis
      proof cases
        case tag
        then have "length startTag \<le> length (drop (k - Suc (length original)) startTag)"
          by (rule prefix_length_le)
        with ne have "k - Suc (length original) = 0" by (cases startTag) auto
        with new(1) show ?thesis by simp
      next
        case later
        from prefix_drop_sep [OF nlS later]
        consider (inside) "prefix startTag
              (drop (k - Suc (length original) - Suc (length startTag)) addition)"
          | (beyond) "prefix startTag
              (drop (k - Suc (length original) - Suc (length startTag) - Suc (length addition))
                 (endTag @ CHR 0x0A # []))"
          by blast
        then show ?thesis
        proof cases
          case inside
          then have "sublist startTag addition" by (rule prefix_drop_sublist)
          with SA show ?thesis ..
        next
          case beyond
          from prefix_drop_sep [OF nlS beyond]
          consider (etag) n where "prefix startTag (drop n endTag)"
            | (nil) n where "prefix startTag (drop n [])"
            by blast
          then show ?thesis
          proof cases
            case etag
            then have "sublist startTag endTag" by (rule prefix_drop_sublist)
            with SE show ?thesis ..
          next
            case nil
            with ne show ?thesis by simp
          qed
        qed
      qed
    qed
  }
  {
    assume k: "k = length original + 1"
    have "r = (original @ NL) @ startTag @ NL @ addition @ NL @ endTag @ NL" using r by simp
    moreover have "length (original @ NL) = length original + 1" by simp
    ultimately have "drop (length original + 1) r = startTag @ NL @ addition @ NL @ endTag @ NL"
      by (metis append_eq_conv_conj)
    moreover have "length original + 1 \<le> length r" unfolding r by simp
    ultimately show "k \<le> length r \<and> prefix startTag (drop k r)"
      using k by simp
  }
qed

subsection \<open>The tags the program builds, and a second run\<close>

lemma tag_formats_no_newline:
  "CHR 0x0A \<notin> set ident \<Longrightarrow> CHR 0x0A \<notin> set (tagStartFormat ident)"
  "CHR 0x0A \<notin> set ident \<Longrightarrow> CHR 0x0A \<notin> set (tagEndFormat ident)"
  by (simp_all add: tagStartFormat_def tagEndFormat_def)

lemma tagEnd_not_in_tagStart: "\<not> sublist (tagEndFormat ident) (tagStartFormat ident)"
proof
  assume "sublist (tagEndFormat ident) (tagStartFormat ident)"
  then obtain k where k: "prefix (tagEndFormat ident) (drop k (tagStartFormat ident))"
    by (auto simp: sublist_iff_prefix_drop)
  then have "length (tagEndFormat ident) \<le> length (drop k (tagStartFormat ident))"
    by (rule prefix_length_le)
  then have "k \<le> 2" by (simp add: tagStartFormat_def tagEndFormat_def)
  then consider "k = 0" | "k = 1" | "k = 2" by linarith
  then show False
  proof cases
    case 1
    with k show False by (simp add: tagStartFormat_def tagEndFormat_def)
  next
    case 2
    with k show False by (simp add: tagStartFormat_def tagEndFormat_def)
  next
    case 3
    with k show False by (simp add: tagStartFormat_def tagEndFormat_def numeral_2_eq_2)
  qed
qed

text \<open>
  A second run of the program over the file the first run wrote: with an identifier
  that holds no newline, tags in order and a content free of the end tag, it finds
  nothing to change and exits with status 0.
\<close>

lemma main_second_run_noop:
  assumes nl: "CHR 0x0A \<notin> set (ID cfg)"
    and "readStdin w = Inr input"
    and "fileContent w (filename cfg) = Inr oldContent"
    and "applyTemplate parseActions evalAction (template cfg) input = Inr content"
    and first: "injectContent oldContent content (tagStartFormat (ID cfg)) (tagEndFormat (ID cfg))
           = Inr updatedContent"
    and order: "Index oldContent (tagStartFormat (ID cfg)) \<le> Index oldContent (tagEndFormat (ID cfg))"
    and clean: "\<not> sublist (tagEndFormat (ID cfg)) content"
    and w': "w' = w\<lparr>files := (files w)(filename cfg := Inr updatedContent)\<rparr>"
  shows "fst (main parseActions evalAction cfg w') = Exit 0"
    and "files (snd (main parseActions evalAction cfg w')) = files w'"
proof -
  have again: "injectContent updatedContent content (tagStartFormat (ID cfg)) (tagEndFormat (ID cfg))
          = Inr updatedContent"
    using first
  proof (cases rule: injectContent_success_cases)
    case append
    with nl clean show ?thesis
      by (intro idempotent_in_append_mode tag_formats_no_newline tagEnd_not_in_tagStart)
  next
    case replace
    with nl clean order show ?thesis
      by (intro idempotent_in_replace_mode tag_formats_no_newline tagEnd_not_in_tagStart)
  qed
  have r: "readStdin w' = Inr input" using assms(2) w' by (simp add: readStdin_def)
  have f: "fileContent w' (filename cfg) = Inr updatedContent"
    using w' by (simp add: fileContent_def)
  show "fst (main parseActions evalAction cfg w') = Exit 0"
    using r f assms(4) again by (simp add: main_def Let_def)
  show "files (snd (main parseActions evalAction cfg w')) = files w'"
    using r f assms(4) again by (simp add: main_def Let_def)
qed

section \<open>The invariant of a successful injection, and idempotence\<close>

text \<open>
  C5 as stated fails: in the result the start tag is followed by a newline, not
  immediately by the addition, and the addition by a newline, not immediately by the
  end tag; and a start tag that the original repeats after its end tag is kept, so the
  result holds the start tag twice (at positions 0 and 11 below).
\<close>

theorem injectContent_invariant_counterexample:
  "injectContent ''<S>old<E><S>'' ''new'' ''<S>'' ''<E>''
     = Inr (''<S>'' @ NL @ ''new'' @ NL @ ''<E><S>'')
   \<and> prefix ''<S>'' (drop 0 (''<S>'' @ NL @ ''new'' @ NL @ ''<E><S>''))
   \<and> prefix ''<S>'' (drop 11 (''<S>'' @ NL @ ''new'' @ NL @ ''<E><S>''))
   \<and> \<not> sublist (''<S>'' @ ''new'' @ ''<E>'') (''<S>'' @ NL @ ''new'' @ NL @ ''<E><S>'')"
  by (simp add: injectContent_def slice_to_def slice_from_def Index_neg_iff [symmetric])

text \<open>
  A start tag that holds a newline can occur a second time across the newline the
  program writes after it, although it occurs once in the original and not in the
  addition: the condition on newlines below cannot be dropped.
\<close>

lemma start_tag_with_newline_repeats:
  "injectContent (''a'' @ NL @ ''a<E>'') ''a'' (''a'' @ NL @ ''a'') ''<E>''
     = Inr (''a'' @ NL @ ''a'' @ NL @ ''a'' @ NL @ ''<E>'')
   \<and> prefix (''a'' @ NL @ ''a'') (drop 0 (''a'' @ NL @ ''a'' @ NL @ ''a'' @ NL @ ''<E>''))
   \<and> prefix (''a'' @ NL @ ''a'') (drop 2 (''a'' @ NL @ ''a'' @ NL @ ''a'' @ NL @ ''<E>''))"
  by (simp add: injectContent_def slice_to_def slice_from_def)

text \<open>
  C5, amended. If the injection succeeds, in append mode or in replace mode with the
  first start tag before the first end tag, the result is \<open>pre\<close>, the start tag, a
  newline, the addition, a newline, the end tag, \<open>suf\<close>. In replace mode \<open>pre\<close> with
  the start tag is the original up to and including its first start tag, and the end
  tag with \<open>suf\<close> is the original from its first end tag on, so the original is
  unaltered outside the replaced region; in append mode \<open>pre\<close> is the original and a
  newline, and \<open>suf\<close> is a newline. The start tag occurs exactly once in the result,
  right after \<open>pre\<close>, provided that it holds no newline, occurs neither in the addition
  nor in the end tag, and does not occur in the original from the first end tag on.
\<close>

theorem injectContent_invariant:
  assumes ok: "injectContent original addition startTag endTag = Inr r"
    and order: "sublist startTag original \<Longrightarrow> Index original startTag < Index original endTag"
  shows "\<exists>pre suf.
           r = pre @ startTag @ NL @ addition @ NL @ endTag @ suf
           \<and> (if sublist startTag original
              then pre @ startTag
                     = take (nat (Index original startTag) + length startTag) original
                   \<and> endTag @ suf = drop (nat (Index original endTag)) original
              else pre = original @ NL \<and> suf = NL)
           \<and> (CHR 0x0A \<notin> set startTag \<and> \<not> sublist startTag addition
                \<and> \<not> sublist startTag endTag
                \<and> \<not> sublist startTag (drop (nat (Index original endTag)) original)
              \<longrightarrow> (\<forall>k. (k \<le> length r \<and> prefix startTag (drop k r)) = (k = length pre)))"
  using ok
proof (cases rule: injectContent_success_cases)
  case append
  let ?pre = "original @ NL"
  have ns: "\<not> sublist startTag original" using append(1) by (simp add: Index_neg_iff)
  have "r = ?pre @ startTag @ NL @ addition @ NL @ endTag @ NL"
    using append(3) by simp
  moreover have "if sublist startTag original
      then ?pre @ startTag = take (nat (Index original startTag) + length startTag) original
           \<and> endTag @ NL = drop (nat (Index original endTag)) original
      else ?pre = original @ NL \<and> NL = NL"
    using ns by simp
  moreover have "CHR 0x0A \<notin> set startTag \<and> \<not> sublist startTag addition
        \<and> \<not> sublist startTag endTag
        \<and> \<not> sublist startTag (drop (nat (Index original endTag)) original)
      \<longrightarrow> (\<forall>k. (k \<le> length r \<and> prefix startTag (drop k r)) = (k = length ?pre))"
    using start_once_append [OF append(1) _ _ _ append(3)] by simp
  ultimately show ?thesis by blast
next
  case replace
  let ?i = "nat (Index original startTag)"
  let ?j = "nat (Index original endTag)"
  let ?pre = "take ?i original"
  let ?suf = "drop (?j + length endTag) original"
  have s: "sublist startTag original" using replace(1) by (simp add: Index_nonneg_iff)
  have x: "take (?i + length startTag) original = ?pre @ startTag"
    using replace(1) by (rule Index_take_split)
  have q: "drop ?j original = endTag @ ?suf"
    using replace(2) by (rule Index_take_split)
  have li: "length ?pre = ?i"
    using Index_bound [OF replace(1)] replace(1) by simp
  have "r = ?pre @ startTag @ NL @ addition @ NL @ endTag @ ?suf"
    using replace(3) x q by simp
  moreover have "if sublist startTag original
      then ?pre @ startTag = take (nat (Index original startTag) + length startTag) original
           \<and> endTag @ ?suf = drop (nat (Index original endTag)) original
      else ?pre = original @ NL \<and> ?suf = NL"
    using s x q by simp
  moreover have "CHR 0x0A \<notin> set startTag \<and> \<not> sublist startTag addition
        \<and> \<not> sublist startTag endTag
        \<and> \<not> sublist startTag (drop (nat (Index original endTag)) original)
      \<longrightarrow> (\<forall>k. (k \<le> length r \<and> prefix startTag (drop k r)) = (k = length ?pre))"
    using start_once_replace [OF replace(1) _ _ _ replace(3)] li by simp
  ultimately show ?thesis by blast
qed

theorem injectContent_invariant_witness:
  "injectContent ''<S>a<S>b<E>'' ''new'' ''<S>'' ''<E>''
     = Inr (''<S>'' @ NL @ ''new'' @ NL @ ''<E>'')
   \<and> sublist ''<S>'' ''<S>a<S>b<E>''
   \<and> Index ''<S>a<S>b<E>'' ''<S>'' < Index ''<S>a<S>b<E>'' ''<E>''
   \<and> CHR 0x0A \<notin> set ''<S>'' \<and> \<not> sublist ''<S>'' ''new'' \<and> \<not> sublist ''<S>'' ''<E>''
   \<and> \<not> sublist ''<S>'' (drop (nat (Index ''<S>a<S>b<E>'' ''<E>'')) ''<S>a<S>b<E>'')
   \<and> (\<exists>pre suf.
         ''<S>'' @ NL @ ''new'' @ NL @ ''<E>'' = pre @ ''<S>'' @ NL @ ''new'' @ NL @ ''<E>'' @ suf
         \<and> pre @ ''<S>'' = ''<S>'' \<and> ''<E>'' @ suf = ''<E>''
         \<and> (\<forall>k. (k \<le> length (''<S>'' @ NL @ ''new'' @ NL @ ''<E>'')
                  \<and> prefix ''<S>'' (drop k (''<S>'' @ NL @ ''new'' @ NL @ ''<E>'')))
                = (k = length pre)))"
proof -
  let ?o = "''<S>a<S>b<E>''"
  let ?r = "''<S>'' @ NL @ ''new'' @ NL @ ''<E>''"
  have h1: "injectContent ?o ''new'' ''<S>'' ''<E>'' = Inr ?r"
    by (simp add: injectContent_def slice_to_def slice_from_def)
  have sub: "sublist ''<S>'' ?o" by (simp add: Index_nonneg_iff [symmetric])
  have h2: "Index ?o ''<S>'' < Index ?o ''<E>''" by simp
  have h3: "CHR 0x0A \<notin> set ''<S>''" by simp
  have h4: "\<not> sublist ''<S>'' ''new''" by (simp add: Index_neg_iff [symmetric])
  have h5: "\<not> sublist ''<S>'' ''<E>''" by (simp add: Index_neg_iff [symmetric])
  have h6: "\<not> sublist ''<S>'' (drop (nat (Index ?o ''<E>'')) ?o)"
    by (simp add: Index_neg_iff [symmetric])
  have tk: "take (nat (Index ?o ''<S>'') + length ''<S>'') ?o = ''<S>''" by simp
  have dr: "drop (nat (Index ?o ''<E>'')) ?o = ''<E>''" by simp
  from injectContent_invariant [OF h1 h2] obtain pre suf where
    a: "?r = pre @ ''<S>'' @ NL @ ''new'' @ NL @ ''<E>'' @ suf"
    and b: "if sublist ''<S>'' ?o
            then pre @ ''<S>'' = take (nat (Index ?o ''<S>'') + length ''<S>'') ?o
                 \<and> ''<E>'' @ suf = drop (nat (Index ?o ''<E>'')) ?o
            else pre = ?o @ NL \<and> suf = NL"
    and c: "CHR 0x0A \<notin> set ''<S>'' \<and> \<not> sublist ''<S>'' ''new'' \<and> \<not> sublist ''<S>'' ''<E>''
            \<and> \<not> sublist ''<S>'' (drop (nat (Index ?o ''<E>'')) ?o)
          \<longrightarrow> (\<forall>k. (k \<le> length ?r \<and> prefix ''<S>'' (drop k ?r)) = (k = length pre))"
    by blast
  from b sub tk dr have b': "pre @ ''<S>'' = ''<S>'' \<and> ''<E>'' @ suf = ''<E>''"
    by (simp only: if_True)
  from c h3 h4 h5 h6
  have c': "\<forall>k. (k \<le> length ?r \<and> prefix ''<S>'' (drop k ?r)) = (k = length pre)"
    by blast
  from a b' c' have "\<exists>pre suf.
         ?r = pre @ ''<S>'' @ NL @ ''new'' @ NL @ ''<E>'' @ suf
         \<and> pre @ ''<S>'' = ''<S>'' \<and> ''<E>'' @ suf = ''<E>''
         \<and> (\<forall>k. (k \<le> length ?r \<and> prefix ''<S>'' (drop k ?r)) = (k = length pre))"
    by blast
  with h1 sub h2 h3 h4 h5 h6 show ?thesis by blast
qed

text \<open>
  C6 as stated fails: the addition is not inspected, and one that contains the end tag
  moves the first end tag of the result, so a second run with the same inputs changes
  the document again.
\<close>

theorem injectContent_idempotent_counterexample:
  "injectContent [] ''a<E>b'' ''<S>'' ''<E>''
     = Inr (NL @ ''<S>'' @ NL @ ''a<E>b'' @ NL @ ''<E>'' @ NL)
   \<and> injectContent (NL @ ''<S>'' @ NL @ ''a<E>b'' @ NL @ ''<E>'' @ NL) ''a<E>b'' ''<S>'' ''<E>''
     = Inr (NL @ ''<S>'' @ NL @ ''a<E>b'' @ NL @ ''<E>b'' @ NL @ ''<E>'' @ NL)
   \<and> NL @ ''<S>'' @ NL @ ''a<E>b'' @ NL @ ''<E>b'' @ NL @ ''<E>'' @ NL
       \<noteq> NL @ ''<S>'' @ NL @ ''a<E>b'' @ NL @ ''<E>'' @ NL"
  by (simp add: injectContent_def slice_to_def slice_from_def)

text \<open>
  C6, amended. Injection is idempotent when the tags hold no newline, the end tag
  occurs neither in the start tag nor in the addition, and the first end tag of the
  original does not precede its first start tag: if then the injection succeeds with
  result \<open>r\<close>, injecting the same addition with the same tags into \<open>r\<close> succeeds and
  returns \<open>r\<close> again.
\<close>

theorem injectContent_idempotent:
  assumes first: "injectContent original addition startTag endTag = Inr r"
    and order: "Index original startTag \<le> Index original endTag"
    and nlS: "CHR 0x0A \<notin> set startTag" and nlE: "CHR 0x0A \<notin> set endTag"
    and ES: "\<not> sublist endTag startTag" and EA: "\<not> sublist endTag addition"
  shows "injectContent r addition startTag endTag = Inr r"
  using first
proof (cases rule: injectContent_success_cases)
  case append
  with nlS nlE ES EA show ?thesis by (intro idempotent_in_append_mode)
next
  case replace
  with order nlE ES EA show ?thesis by (intro idempotent_in_replace_mode)
qed

theorem injectContent_idempotent_witness:
  "injectContent ''A<S>old<E>B'' ''new'' ''<S>'' ''<E>'' = Inr (''A<S>'' @ NL @ ''new'' @ NL @ ''<E>B'')
   \<and> Index ''A<S>old<E>B'' ''<S>'' \<le> Index ''A<S>old<E>B'' ''<E>''
   \<and> CHR 0x0A \<notin> set ''<S>'' \<and> CHR 0x0A \<notin> set ''<E>''
   \<and> \<not> sublist ''<E>'' ''<S>'' \<and> \<not> sublist ''<E>'' ''new''
   \<and> injectContent (''A<S>'' @ NL @ ''new'' @ NL @ ''<E>B'') ''new'' ''<S>'' ''<E>''
       = Inr (''A<S>'' @ NL @ ''new'' @ NL @ ''<E>B'')"
proof -
  have h1: "injectContent ''A<S>old<E>B'' ''new'' ''<S>'' ''<E>''
              = Inr (''A<S>'' @ NL @ ''new'' @ NL @ ''<E>B'')"
    by (simp add: injectContent_def slice_to_def slice_from_def)
  have h2: "Index ''A<S>old<E>B'' ''<S>'' \<le> Index ''A<S>old<E>B'' ''<E>''" by simp
  have h3: "CHR 0x0A \<notin> set ''<S>''" by simp
  have h4: "CHR 0x0A \<notin> set ''<E>''" by simp
  have h5: "\<not> sublist ''<E>'' ''<S>''" by (simp add: Index_neg_iff [symmetric])
  have h6: "\<not> sublist ''<E>'' ''new''" by (simp add: Index_neg_iff [symmetric])
  show ?thesis
    using h1 h2 h3 h4 h5 h6 injectContent_idempotent [OF h1 h2 h3 h4 h5 h6] by simp
qed

end
